theory Spec2Isabelle
  imports Main "HOL-Library.Char_ord"
begin

section \<open>Values and strings of the source language\<close>

text \<open>
  The module \<^verbatim>\<open>src/modules/auth/index.ts\<close> reads \<^verbatim>\<open>args.id\<close> from an object typed
  \<^verbatim>\<open>any\<close>: what reaches \<^verbatim>\<open>isValidIdentity\<close> is a string, a flag or, when the key is
  absent, the value \<^verbatim>\<open>undefined\<close>. Strings are lists of characters.
\<close>

datatype jsval = Undefined | Bool bool | Str string

text \<open>JavaScript's ToString, as \<^verbatim>\<open>RegExp.prototype.test\<close> applies it to its argument.\<close>

fun toString :: "jsval \<Rightarrow> string" where
  "toString Undefined = ''undefined''"
| "toString (Bool b) = (if b then ''true'' else ''false'')"
| "toString (Str s) = s"

text \<open>\<^verbatim>\<open>String.prototype.toLowerCase\<close> on the letters \<^verbatim>\<open>A\<close> to \<^verbatim>\<open>Z\<close>; every other
  character of the 8-bit alphabet is kept. The module only asks whether the result starts
  with \<^verbatim>\<open>id \<close>, and of the ASCII range only these letters change.\<close>

definition lowerChar :: "char \<Rightarrow> char" where
  "lowerChar c =
     (if CHR ''A'' \<le> c \<and> c \<le> CHR ''Z'' then char_of (of_char c + (32::nat)) else c)"

definition toLowerCase :: "string \<Rightarrow> string" where
  "toLowerCase s = map lowerChar s"

text \<open>\<^verbatim>\<open>String.prototype.startsWith\<close>.\<close>

fun startsWith :: "string \<Rightarrow> string \<Rightarrow> bool" where
  "startsWith s [] = True"
| "startsWith [] (p # ps) = False"
| "startsWith (c # cs) (p # ps) = (c = p \<and> startsWith cs ps)"

section \<open>The regular expression of the validator\<close>

text \<open>
  The validator tests against the literal \<^verbatim>\<open>/^[a-z][a-z0-9_]+$/\<close>. The fragment of regular
  expressions it needs: a character class is a list of ranges and single characters, an
  atom is a class taken once or one or more times, and a pattern anchored at both ends is
  a list of atoms that has to consume the whole input. (Without the \<^verbatim>\<open>m\<close> flag
  \<^verbatim>\<open>$\<close> matches at the end of the input only.)
\<close>

datatype class_item = Range char char | Single char

datatype quantifier = Once | OneOrMore

type_synonym atom = "class_item list \<times> quantifier"

fun inItem :: "class_item \<Rightarrow> char \<Rightarrow> bool" where
  "inItem (Range lo hi) c = (lo \<le> c \<and> c \<le> hi)"
| "inItem (Single x) c = (c = x)"

definition inClass :: "class_item list \<Rightarrow> char \<Rightarrow> bool" where
  "inClass cls c = list_ex (\<lambda>i. inItem i c) cls"

text \<open>The inputs left over after one character of the class.\<close>

fun matchOnce :: "class_item list \<Rightarrow> string \<Rightarrow> string list" where
  "matchOnce cls [] = []"
| "matchOnce cls (c # cs) = (if inClass cls c then [cs] else [])"

text \<open>The inputs left over after one or more characters of the class: every way of
  stopping, the shortest match first.\<close>

fun matchPlus :: "class_item list \<Rightarrow> string \<Rightarrow> string list" where
  "matchPlus cls [] = []"
| "matchPlus cls (c # cs) = (if inClass cls c then cs # matchPlus cls cs else [])"

fun matchAtom :: "atom \<Rightarrow> string \<Rightarrow> string list" where
  "matchAtom (cls, Once) s = matchOnce cls s"
| "matchAtom (cls, OneOrMore) s = matchPlus cls s"

fun matchAtoms :: "atom list \<Rightarrow> string \<Rightarrow> string list" where
  "matchAtoms [] s = [s]"
| "matchAtoms (a # as) s = concat (map (matchAtoms as) (matchAtom a s))"

text \<open>\<^verbatim>\<open>regex.test(v)\<close> for a pattern anchored by \<^verbatim>\<open>^\<close> and \<^verbatim>\<open>$\<close>: the argument is
  converted to a string, and some way of matching has to leave nothing over.\<close>

definition regex_test :: "atom list \<Rightarrow> jsval \<Rightarrow> bool" where
  "regex_test r v = list_ex (\<lambda>rest. rest = []) (matchAtoms r (toString v))"

definition lowerLetters :: "class_item list" where
  "lowerLetters = [Range CHR ''a'' CHR ''z'']"

definition nameChars :: "class_item list" where
  "nameChars = [Range CHR ''a'' CHR ''z'', Range CHR ''0'' CHR ''9'', Single CHR ''_'']"

text \<open>\<^verbatim>\<open>/^[a-z][a-z0-9_]+$/\<close>\<close>

definition identityRegex :: "atom list" where
  "identityRegex = [(lowerLetters, Once), (nameChars, OneOrMore)]"

section \<open>The validator\<close>

text \<open>
  \<^verbatim>\<open>function isValidIdentity(username: string) {
    const regex = /^[a-z][a-z0-9_]+$/;
    return regex.test(username);
  }\<close>
  The annotation \<^verbatim>\<open>string\<close> is erased at run time and the caller passes a value of
  type \<^verbatim>\<open>any\<close>, so the argument is a \<^typ>\<open>jsval\<close>.
\<close>

definition isValidIdentity :: "jsval \<Rightarrow> bool" where
  "isValidIdentity username = regex_test identityRegex username"

text \<open>The character sets of the claim about the validator.\<close>

definition isLower :: "char \<Rightarrow> bool" where
  "isLower c = (CHR ''a'' \<le> c \<and> c \<le> CHR ''z'')"

definition isDigit :: "char \<Rightarrow> bool" where
  "isDigit c = (CHR ''0'' \<le> c \<and> c \<le> CHR ''9'')"

definition isUpper :: "char \<Rightarrow> bool" where
  "isUpper c = (CHR ''A'' \<le> c \<and> c \<le> CHR ''Z'')"

definition isNameChar :: "char \<Rightarrow> bool" where
  "isNameChar c = (isLower c \<or> isDigit c \<or> c = CHR ''_'')"

text \<open>The shape the specification gives a valid name: a lowercase letter, then one or
  more lowercase letters, digits or underscores.\<close>

fun wellFormedName :: "string \<Rightarrow> bool" where
  "wellFormedName [] = False"
| "wellFormedName (c # cs) = (isLower c \<and> cs \<noteq> [] \<and> list_all isNameChar cs)"

section \<open>The store\<close>

text \<open>
  The module reaches the database through \<^verbatim>\<open>getDb\<close>, whose code is not part of the
  source at hand. The three tables its one query names, with the columns the query and
  the specification's data model give them:
\<close>

record identity_row =
  i_name :: string
  i_enabled :: bool
  i_domain :: "string option"

record user_row =
  u_sender :: string
  u_primary_identity_name :: "string option"

record user_identity_row =
  ui_identity_name :: string
  ui_user_pubkey :: string
  ui_membership_type :: string

record db =
  identity :: "identity_row list"
  user_identity :: "user_identity_row list"
  user :: "user_row list"

text \<open>The state a command runs in: the tables, and the number of statements that have
  been run against them.\<close>

record world =
  store :: db
  reads :: nat

text \<open>The columns the query selects.\<close>

record joined_row =
  enabled :: bool
  identityName :: string
  membershipType :: string
  primaryIdentityName :: "string option"
  sender :: string

text \<open>
  \<^verbatim>\<open>SELECT i.enabled as enabled, i.name as identityName,
         ui.membership_type as membershipType,
         u.primary_identity_name as primaryIdentityName, u.sender as sender
  FROM user_identity ui
  JOIN identity i ON ui.identity_name = i.name
  JOIN user u on ui.user_pubkey = u.sender
  WHERE identity_name=$identityName\<close>
  The rows come in the order of the nested loops over the tables. The bound parameter is
  the value the caller passed: a name equals it only if it is that string.
\<close>

definition selectColumns ::
  "user_identity_row \<Rightarrow> identity_row \<Rightarrow> user_row \<Rightarrow> joined_row" where
  "selectColumns ui i u =
     \<lparr>enabled = i_enabled i, identityName = i_name i,
      membershipType = ui_membership_type ui,
      primaryIdentityName = u_primary_identity_name u, sender = u_sender u\<rparr>"

definition joinRows :: "db \<Rightarrow> jsval \<Rightarrow> joined_row list" where
  "joinRows d name =
     [selectColumns ui i u.
      ui \<leftarrow> user_identity d, i \<leftarrow> identity d, ui_identity_name ui = i_name i,
      u \<leftarrow> user d, ui_user_pubkey ui = u_sender u, Str (ui_identity_name ui) = name]"

text \<open>\<^verbatim>\<open>db.prepare(...).get({ identityName })\<close>: the statement is run once, and its first
  row comes back, or \<^verbatim>\<open>undefined\<close> when there is none.\<close>

definition stmt_get :: "jsval \<Rightarrow> world \<Rightarrow> joined_row option \<times> world" where
  "stmt_get name w =
     (case joinRows (store w) name of
        [] \<Rightarrow> (None, w\<lparr>reads := reads w + 1\<rparr>)
      | r # _ \<Rightarrow> (Some r, w\<lparr>reads := reads w + 1\<rparr>))"

section \<open>The resolver\<close>

datatype role = ADMIN | MEMBER

record IExistingIdentityResult = joined_row +
  status :: role

datatype IdentityStatusCheckResult =
  Existing IExistingIdentityResult
| AVAILABLE
| TAKEN

text \<open>
  \<^verbatim>\<open>if (!identity) { return { status: "AVAILABLE" }; }
  else {
    if (identity.sender === sender) {
      return { enabled: identity.enabled, identityName: identity.identityName,
               membershipType: identity.membershipType,
               primaryIdentityName: identity.primaryIdentityName, sender,
               status: identity.membershipType === "ADMIN" ? "ADMIN" : "MEMBER" };
    } else { return { status: "TAKEN" }; }
  }\<close>
\<close>

definition checkIdentityStatus ::
  "jsval \<Rightarrow> string \<Rightarrow> world \<Rightarrow> IdentityStatusCheckResult \<times> world" where
  "checkIdentityStatus name sndr w =
     (case stmt_get name w of
        (None, w') \<Rightarrow> (AVAILABLE, w')
      | (Some row, w') \<Rightarrow>
          (if sender row = sndr
           then (Existing \<lparr>enabled = enabled row, identityName = identityName row,
                   membershipType = membershipType row,
                   primaryIdentityName = primaryIdentityName row, sender = sndr,
                   status = (if membershipType row = ''ADMIN'' then ADMIN else MEMBER)\<rparr>, w')
           else (TAKEN, w')))"

section \<open>The grammar\<close>

text \<open>
  What a call of the parser can do, seen from \<^verbatim>\<open>handle\<close>: throw, return no object (so
  that reading a property of it throws), or return an object. An object is read by
  property name; an absent property reads as \<^verbatim>\<open>undefined\<close>.
\<close>

type_synonym args = "string \<Rightarrow> jsval"

datatype parse_outcome = Thrown | Nullish | Parsed args

text \<open>
  \<^verbatim>\<open>const parser = humanist([["id", 1], ["enable", 0], ["disable", 0], ["destroy", 0],
    ["domain", 1], ["admin", 1], ["member", 1], ["remove", 1]]);\<close>
\<close>

definition optionTable :: "(string \<times> nat) list" where
  "optionTable =
     [(''id'', 1), (''enable'', 0), (''disable'', 0), (''destroy'', 0),
      (''domain'', 1), (''admin'', 1), (''member'', 1), (''remove'', 1)]"

text \<open>Modelled from the spec: the tokens of \<^verbatim>\<open>humanist\<close> (the library is a dependency, not
  part of the source at hand): the command cut at its spaces; empty pieces are dropped.\<close>

fun tokens :: "string \<Rightarrow> string \<Rightarrow> string list" where
  "tokens [] cur = (if cur = [] then [] else [cur])"
| "tokens (c # cs) cur =
     (if c = CHR '' '' then (if cur = [] then tokens cs [] else cur # tokens cs [])
      else tokens cs (cur @ [c]))"

text \<open>
  Modelled from the spec: \<^verbatim>\<open>humanist\<close>, the grammar library, is a dependency of the module and
  not part of the source at hand. Section 4.1 of the specification: the grammar produces
  a mapping from recognised option names to their captured values, from a fixed table of
  names and arities, and is case-sensitive on option names. An option of arity 0 is a
  flag; an option of arity 1 captures the next token. A token that is no option name
  captures nothing, and neither does an option whose value is missing: the parse then
  comes back without that key.
\<close>

fun scan :: "(string \<times> nat) list \<Rightarrow> string list \<Rightarrow> args \<Rightarrow> args" where
  "scan table [] acc = acc"
| "scan table [t] acc =
     (case map_of table t of
        Some 0 \<Rightarrow> acc(t := Bool True)
      | _ \<Rightarrow> acc)"
| "scan table (t # v # rest) acc =
     (case map_of table t of
        None \<Rightarrow> scan table (v # rest) acc
      | Some 0 \<Rightarrow> scan table (v # rest) (acc(t := Bool True))
      | Some (Suc _) \<Rightarrow> scan table rest (acc(t := Str v)))"

text \<open>Modelled from the spec: the parser \<^verbatim>\<open>humanist\<close> builds from a table (section 4.1; the
  library is missing): it returns the mapping, and no key is set at the start.\<close>

definition humanist :: "(string \<times> nat) list \<Rightarrow> string \<Rightarrow> parse_outcome" where
  "humanist table command = Parsed (scan table (tokens command []) (\<lambda>_. Undefined))"

definition parser :: "string \<Rightarrow> parse_outcome" where
  "parser = humanist optionTable"

section \<open>The dispatcher\<close>

text \<open>The fields of \<^verbatim>\<open>IMessage\<close> the module reads.\<close>

record IMessage =
  msg_sender :: string
  msg_id :: string

text \<open>What can leave \<^verbatim>\<open>handle\<close> other than a value: the parser's own exception, or the
  \<^verbatim>\<open>TypeError\<close> of reading \<^verbatim>\<open>.id\<close> from no object.\<close>

datatype exn = ParserException | TypeError

text \<open>
  \<^verbatim>\<open>const lcaseCommand = command.toLowerCase();
  if (lcaseCommand.startsWith("id ")) {
    const args: any = parser(command);
    const identityName = args.id;
    const sender = message.sender;
    if (isValidIdentity(identityName)) {
      const identityStatus = await checkIdentityStatus(identityName, message.sender);
      return identityStatus.status === "AVAILABLE"
        ? await createIdentity(identityName, sender, command, message)
        : identityStatus.status === "TAKEN"
          ? await alreadyTaken(identityName, sender, command, message)
          : await modifyIdentity(identityStatus, args, command, message);
    }
  }\<close>
  The three handlers live in modules of their own and are parameters here, as is the
  parser; each handler runs in the state the resolver left and returns a response and a
  state. A call that falls off the end returns \<^verbatim>\<open>undefined\<close>, which is \<open>Inr None\<close>. The
  third parameter of the source, \<^verbatim>\<open>msgSource\<close>, is never read.
\<close>

definition handle ::
  "(string \<Rightarrow> parse_outcome) \<Rightarrow>
   (jsval \<Rightarrow> string \<Rightarrow> string \<Rightarrow> IMessage \<Rightarrow> world \<Rightarrow> 'r \<times> world) \<Rightarrow>
   (jsval \<Rightarrow> string \<Rightarrow> string \<Rightarrow> IMessage \<Rightarrow> world \<Rightarrow> 'r \<times> world) \<Rightarrow>
   (IExistingIdentityResult \<Rightarrow> args \<Rightarrow> string \<Rightarrow> IMessage \<Rightarrow> world \<Rightarrow> 'r \<times> world) \<Rightarrow>
   string \<Rightarrow> IMessage \<Rightarrow> world \<Rightarrow> (exn + 'r option) \<times> world" where
  "handle parse createIdentity alreadyTaken modifyIdentity command message w =
     (let lcaseCommand = toLowerCase command in
      if startsWith lcaseCommand ''id '' then
        (case parse command of
           Thrown \<Rightarrow> (Inl ParserException, w)
         | Nullish \<Rightarrow> (Inl TypeError, w)
         | Parsed args \<Rightarrow>
             (let identityName = args ''id''; sndr = msg_sender message in
              if isValidIdentity identityName then
                (case checkIdentityStatus identityName (msg_sender message) w of
                   (AVAILABLE, w') \<Rightarrow>
                     (case createIdentity identityName sndr command message w' of
                        (r, w'') \<Rightarrow> (Inr (Some r), w''))
                 | (TAKEN, w') \<Rightarrow>
                     (case alreadyTaken identityName sndr command message w' of
                        (r, w'') \<Rightarrow> (Inr (Some r), w''))
                 | (Existing identityStatus, w') \<Rightarrow>
                     (case modifyIdentity identityStatus args command message w' of
                        (r, w'') \<Rightarrow> (Inr (Some r), w'')))
              else (Inr None, w)))
      else (Inr None, w))"

section \<open>The lifecycle and role engine\<close>

text \<open>
  The handlers \<^verbatim>\<open>createIdentity\<close>, \<^verbatim>\<open>alreadyTaken\<close> and \<^verbatim>\<open>modifyIdentity\<close> are imported
  from modules that are not part of the source at hand. What follows is their behaviour
  as sections 3 and 4.4 of the specification give it, over the tables above.
\<close>

text \<open>Modelled from the spec: the rejections of section 7 that the missing handlers report
  (\<^verbatim>\<open>MalformedCommand\<close> and \<^verbatim>\<open>InvalidName\<close> never reach them).\<close>

datatype rejection = NotAuthorized | Conflict | InvariantViolation

text \<open>Modelled from the spec: the \<^verbatim>\<open>MutationResult\<close> of section 4.4 that the missing handlers
  return: success, the "already yours" acknowledgment, or a rejection.\<close>

datatype MutationResult = Success | AlreadyYours | Rejected rejection

text \<open>Modelled from the spec: the typed intent the grammar hands to the engine (the
  handlers' argument object is missing with them): the claimed name, and each modifier
  of the command surface of section 6, present or not.\<close>

record intent =
  in_name :: string
  in_member :: "string option"
  in_admin :: "string option"
  in_remove :: "string option"
  in_domain :: "string option"
  in_enable :: bool
  in_disable :: bool
  in_destroy :: bool

text \<open>Modelled from the spec: the closed set of modifiers of section 9 (the missing
  \<^verbatim>\<open>modifyIdentity\<close> branches on them).\<close>

datatype modifier =
  GrantMember string
| GrantAdmin string
| RemoveMember string
| SetDomain string
| Enable
| Disable
| Destroy

definition optList :: "('a \<Rightarrow> 'b) \<Rightarrow> 'a option \<Rightarrow> 'b list" where
  "optList f v = (case v of None \<Rightarrow> [] | Some x \<Rightarrow> [f x])"

text \<open>Modelled from the spec: the order in which the missing \<^verbatim>\<open>modifyIdentity\<close> takes the
  modifiers of one command (section 4.4): role grants and removals, then the domain, then
  enable and disable, then destroy.\<close>

definition modifiersOf :: "intent \<Rightarrow> modifier list" where
  "modifiersOf i =
     optList GrantMember (in_member i) @ optList GrantAdmin (in_admin i) @
     optList RemoveMember (in_remove i) @ optList SetDomain (in_domain i) @
     (if in_enable i then [Enable] else []) @ (if in_disable i then [Disable] else []) @
     (if in_destroy i then [Destroy] else [])"

text \<open>Queries on the membership table.\<close>

definition hasMembers :: "db \<Rightarrow> string \<Rightarrow> bool" where
  "hasMembers d n = list_ex (\<lambda>m. ui_identity_name m = n) (user_identity d)"

definition hasAdmin :: "db \<Rightarrow> string \<Rightarrow> bool" where
  "hasAdmin d n =
     list_ex (\<lambda>m. ui_identity_name m = n \<and> ui_membership_type m = ''ADMIN'') (user_identity d)"

definition isMember :: "db \<Rightarrow> string \<Rightarrow> string \<Rightarrow> bool" where
  "isMember d n x =
     list_ex (\<lambda>m. ui_identity_name m = n \<and> ui_user_pubkey m = x) (user_identity d)"

definition isAdmin :: "db \<Rightarrow> string \<Rightarrow> string \<Rightarrow> bool" where
  "isAdmin d n x =
     list_ex (\<lambda>m. ui_identity_name m = n \<and> ui_user_pubkey m = x \<and>
                   ui_membership_type m = ''ADMIN'') (user_identity d)"

definition otherAdmin :: "db \<Rightarrow> string \<Rightarrow> string \<Rightarrow> bool" where
  "otherAdmin d n x =
     list_ex (\<lambda>m. ui_identity_name m = n \<and> ui_user_pubkey m \<noteq> x \<and>
                   ui_membership_type m = ''ADMIN'') (user_identity d)"

text \<open>The admin invariant of section 3: every identity name that has a membership row
  has one of type \<^verbatim>\<open>ADMIN\<close>.\<close>

definition adminInvariant :: "db \<Rightarrow> bool" where
  "adminInvariant d = list_all (\<lambda>m. hasAdmin d (ui_identity_name m)) (user_identity d)"

text \<open>Modelled from the spec: a write of the missing handlers (section 4.4). A grant
  creates the User row of the grantee if it is absent.\<close>

definition ensureUser :: "db \<Rightarrow> string \<Rightarrow> db" where
  "ensureUser d x =
     (if list_ex (\<lambda>u. u_sender u = x) (user d) then d
      else d\<lparr>user := user d @ [\<lparr>u_sender = x, u_primary_identity_name = None\<rparr>]\<rparr>)"

text \<open>Modelled from the spec: a write of the missing handlers (sections 3 and 4.4). A grant
  to a sender who holds a membership on the identity sets its type; a grant to any other
  sender adds a row.\<close>

definition setMembership :: "db \<Rightarrow> string \<Rightarrow> string \<Rightarrow> string \<Rightarrow> db" where
  "setMembership d n x t =
     (if isMember d n x
      then d\<lparr>user_identity :=
               map (\<lambda>m. if ui_identity_name m = n \<and> ui_user_pubkey m = x
                         then m\<lparr>ui_membership_type := t\<rparr> else m) (user_identity d)\<rparr>
      else d\<lparr>user_identity := user_identity d @
               [\<lparr>ui_identity_name = n, ui_user_pubkey = x, ui_membership_type = t\<rparr>]\<rparr>)"

text \<open>Modelled from the spec: a write of the missing handlers (section 4.4). A removal
  deletes the sender's rows on the identity.\<close>

definition deleteMembership :: "db \<Rightarrow> string \<Rightarrow> string \<Rightarrow> db" where
  "deleteMembership d n x =
     d\<lparr>user_identity :=
         filter (\<lambda>m. \<not> (ui_identity_name m = n \<and> ui_user_pubkey m = x)) (user_identity d)\<rparr>"

text \<open>Modelled from the spec: a write of the missing handlers (section 4.4). A destroy
  deletes the Identity row and all its memberships.\<close>

definition deleteIdentity :: "db \<Rightarrow> string \<Rightarrow> db" where
  "deleteIdentity d n =
     d\<lparr>identity := filter (\<lambda>i. i_name i \<noteq> n) (identity d),
       user_identity := filter (\<lambda>m. ui_identity_name m \<noteq> n) (user_identity d)\<rparr>"

text \<open>Modelled from the spec: a write of the missing handlers (section 4.4): the domain
  and the enabled flag are columns of the Identity row.\<close>

definition updateIdentity :: "db \<Rightarrow> string \<Rightarrow> (identity_row \<Rightarrow> identity_row) \<Rightarrow> db" where
  "updateIdentity d n f = d\<lparr>identity := map (\<lambda>i. if i_name i = n then f i else i) (identity d)\<rparr>"

text \<open>Modelled from the spec: one modifier of the missing \<^verbatim>\<open>modifyIdentity\<close>, run for an
  ADMIN caller on identity \<open>n\<close> (the row EXISTING (ADMIN) of section 4.4). A removal is
  rejected if the sender is the last ADMIN, and so is the demotion of the last ADMIN to
  MEMBER (section 3); a destroy is rejected while the identity is enabled.\<close>

fun applyModifier :: "string \<Rightarrow> modifier \<Rightarrow> db \<Rightarrow> rejection + db" where
  "applyModifier n (GrantMember x) d =
     (if isAdmin d n x \<and> \<not> otherAdmin d n x then Inl InvariantViolation
      else Inr (setMembership (ensureUser d x) n x ''MEMBER''))"
| "applyModifier n (GrantAdmin x) d = Inr (setMembership (ensureUser d x) n x ''ADMIN'')"
| "applyModifier n (RemoveMember x) d =
     (if isAdmin d n x \<and> \<not> otherAdmin d n x then Inl InvariantViolation
      else Inr (deleteMembership d n x))"
| "applyModifier n (SetDomain dn) d = Inr (updateIdentity d n (\<lambda>i. i\<lparr>i_domain := Some dn\<rparr>))"
| "applyModifier n Enable d = Inr (updateIdentity d n (\<lambda>i. i\<lparr>i_enabled := True\<rparr>))"
| "applyModifier n Disable d = Inr (updateIdentity d n (\<lambda>i. i\<lparr>i_enabled := False\<rparr>))"
| "applyModifier n Destroy d =
     (if list_ex (\<lambda>i. i_name i = n \<and> i_enabled i) (identity d) then Inl InvariantViolation
      else Inr (deleteIdentity d n))"

text \<open>Modelled from the spec: the modifiers of one command of the missing
  \<^verbatim>\<open>modifyIdentity\<close>, in order; the first rejection ends the run.\<close>

fun applyModifiers :: "string \<Rightarrow> modifier list \<Rightarrow> db \<Rightarrow> rejection + db" where
  "applyModifiers n [] d = Inr d"
| "applyModifiers n (m # ms) d =
     (case applyModifier n m d of
        Inl e \<Rightarrow> Inl e
      | Inr d' \<Rightarrow> applyModifiers n ms d')"

text \<open>Modelled from the spec: the missing \<^verbatim>\<open>modifyIdentity\<close> (rows EXISTING of section 4.4).
  A MEMBER is refused every modifier and gets the acknowledgment otherwise; an ADMIN's
  modifiers run as one atomic unit, so a rejected command leaves the tables as they were.\<close>

definition modifyIdentity_spec ::
  "IExistingIdentityResult \<Rightarrow> intent \<Rightarrow> db \<Rightarrow> MutationResult \<times> db" where
  "modifyIdentity_spec identityStatus i d =
     (case status identityStatus of
        MEMBER \<Rightarrow> (if modifiersOf i = [] then (AlreadyYours, d) else (Rejected NotAuthorized, d))
      | ADMIN \<Rightarrow>
          (if modifiersOf i = [] then (AlreadyYours, d)
           else (case applyModifiers (identityName identityStatus) (modifiersOf i) d of
                   Inl e \<Rightarrow> (Rejected e, d)
                 | Inr d' \<Rightarrow> (Success, d'))))"

text \<open>Modelled from the spec: the missing \<^verbatim>\<open>createIdentity\<close> (row AVAILABLE of section 4.4):
  an enabled Identity row, an ADMIN membership of the caller, the caller's primary
  identity if it has none; modifiers in the command are ignored. The store keeps identity
  names unique, and a name that is there already is refused as taken (section 5).\<close>

definition createIdentity_spec :: "string \<Rightarrow> string \<Rightarrow> db \<Rightarrow> MutationResult \<times> db" where
  "createIdentity_spec n sndr d =
     (if list_ex (\<lambda>i. i_name i = n) (identity d) then (Rejected Conflict, d)
      else (let d1 = ensureUser d sndr in
            (Success,
             d1\<lparr>identity := identity d1 @ [\<lparr>i_name = n, i_enabled = True, i_domain = None\<rparr>],
                user_identity := user_identity d1 @
                  [\<lparr>ui_identity_name = n, ui_user_pubkey = sndr, ui_membership_type = ''ADMIN''\<rparr>],
                user := map (\<lambda>u. if u_sender u = sndr \<and> u_primary_identity_name u = None
                                  then u\<lparr>u_primary_identity_name := Some n\<rparr> else u) (user d1)\<rparr>)))"

text \<open>Modelled from the spec: the missing \<^verbatim>\<open>alreadyTaken\<close> (row TAKEN of section 4.4): the
  caller has no standing; an "already taken" outcome and no mutation.\<close>

definition alreadyTaken_spec :: "string \<Rightarrow> string \<Rightarrow> db \<Rightarrow> MutationResult \<times> db" where
  "alreadyTaken_spec n sndr d = (Rejected Conflict, d)"

text \<open>Modelled from the spec: the missing \<^verbatim>\<open>alreadyTaken\<close> as \<^verbatim>\<open>handle\<close> calls it,
  \<^verbatim>\<open>alreadyTaken(identityName, sender, command, message)\<close>: the outcome of the row TAKEN of
  section 4.4 on the tables of the state it runs in. The name is the one the validator
  accepted, as the validator read it.\<close>

definition alreadyTakenHandler ::
  "jsval \<Rightarrow> string \<Rightarrow> string \<Rightarrow> IMessage \<Rightarrow> world \<Rightarrow> MutationResult \<times> world" where
  "alreadyTakenHandler name sndr command message w =
     (case alreadyTaken_spec (toString name) sndr (store w) of
        (res, d') \<Rightarrow> (res, w\<lparr>store := d'\<rparr>))"

text \<open>Modelled from the spec: \<^verbatim>\<open>apply(status, parsedIntent, senderId)\<close> of section 4.4, the
  dispatch on the resolved status over the three missing handlers.\<close>

definition apply_engine ::
  "IdentityStatusCheckResult \<Rightarrow> intent \<Rightarrow> string \<Rightarrow> db \<Rightarrow> MutationResult \<times> db" where
  "apply_engine st i sndr d =
     (case st of
        AVAILABLE \<Rightarrow> createIdentity_spec (in_name i) sndr d
      | TAKEN \<Rightarrow> alreadyTaken_spec (in_name i) sndr d
      | Existing identityStatus \<Rightarrow> modifyIdentity_spec identityStatus i d)"

text \<open>One command on the registry: the resolver of the source, then the engine on the
  status it returned.\<close>

definition resolveAndApply :: "intent \<Rightarrow> string \<Rightarrow> world \<Rightarrow> MutationResult \<times> world" where
  "resolveAndApply i sndr w =
     (case checkIdentityStatus (Str (in_name i)) sndr w of
        (st, w') \<Rightarrow>
          (case apply_engine st i sndr (store w') of
             (res, d') \<Rightarrow> (res, w'\<lparr>store := d'\<rparr>)))"

definition emptyDb :: db where
  "emptyDb = \<lparr>identity = [], user_identity = [], user = []\<rparr>"

text \<open>The registry states that commands can produce from the empty registry.\<close>

inductive reachable :: "world \<Rightarrow> bool" where
  initial: "reachable \<lparr>store = emptyDb, reads = 0\<rparr>"
| command: "reachable w \<Longrightarrow> reachable (snd (resolveAndApply i sndr w))"

text \<open>The modifiers of a command that come before its destroy.\<close>

definition beforeDestroy :: "intent \<Rightarrow> modifier list" where
  "beforeDestroy i =
     optList GrantMember (in_member i) @ optList GrantAdmin (in_admin i) @
     optList RemoveMember (in_remove i) @ optList SetDomain (in_domain i) @
     (if in_enable i then [Enable] else []) @ (if in_disable i then [Disable] else [])"

section \<open>Whether a name has a joined row\<close>

text \<open>The condition of the query, as a test on the tables: some membership row on the
  name meets an Identity row of that name and a User row of its sender.\<close>

definition joins :: "db \<Rightarrow> string \<Rightarrow> bool" where
  "joins d n =
     list_ex (\<lambda>ui. ui_identity_name ui = n \<and>
                list_ex (\<lambda>i. i_name i = n) (identity d) \<and>
                list_ex (\<lambda>u. u_sender u = ui_user_pubkey ui) (user d)) (user_identity d)"

section \<open>Example registries and handlers\<close>

text \<open>Handlers that only report which of them ran, for running the dispatcher.\<close>

definition reportCreate ::
  "jsval \<Rightarrow> string \<Rightarrow> string \<Rightarrow> IMessage \<Rightarrow> world \<Rightarrow> string \<times> world" where
  "reportCreate n s c m w = (''createIdentity'', w)"

definition reportTaken ::
  "jsval \<Rightarrow> string \<Rightarrow> string \<Rightarrow> IMessage \<Rightarrow> world \<Rightarrow> string \<times> world" where
  "reportTaken n s c m w = (''alreadyTaken'', w)"

definition reportModify ::
  "IExistingIdentityResult \<Rightarrow> args \<Rightarrow> string \<Rightarrow> IMessage \<Rightarrow> world \<Rightarrow> string \<times> world" where
  "reportModify st a c m w = (''modifyIdentity'', w)"

text \<open>The identity \<^verbatim>\<open>alice\<close> with an ADMIN \<^verbatim>\<open>S1\<close> and a MEMBER \<^verbatim>\<open>S2\<close>, and the same identity
  with no membership at all.\<close>

definition aliceRow :: identity_row where
  "aliceRow = \<lparr>i_name = ''alice'', i_enabled = True, i_domain = None\<rparr>"

definition twoMembers :: world where
  "twoMembers =
     \<lparr>store =
        \<lparr>identity = [aliceRow],
         user_identity =
           [\<lparr>ui_identity_name = ''alice'', ui_user_pubkey = ''S1'', ui_membership_type = ''ADMIN''\<rparr>,
            \<lparr>ui_identity_name = ''alice'', ui_user_pubkey = ''S2'', ui_membership_type = ''MEMBER''\<rparr>],
         user =
           [\<lparr>u_sender = ''S1'', u_primary_identity_name = Some ''alice''\<rparr>,
            \<lparr>u_sender = ''S2'', u_primary_identity_name = None\<rparr>]\<rparr>,
      reads = 0\<rparr>"

definition noMembers :: world where
  "noMembers =
     \<lparr>store = \<lparr>identity = [aliceRow], user_identity = [],
                user = [\<lparr>u_sender = ''S1'', u_primary_identity_name = None\<rparr>]\<rparr>,
      reads = 0\<rparr>"

definition fromS1 :: IMessage where
  "fromS1 = \<lparr>msg_sender = ''S1'', msg_id = ''m1''\<rparr>"

definition fromS2 :: IMessage where
  "fromS2 = \<lparr>msg_sender = ''S2'', msg_id = ''m2''\<rparr>"

text \<open>A registry in which \<^verbatim>\<open>S2\<close> owns an identity whose name is the string
  \<^verbatim>\<open>undefined\<close>.\<close>

definition undefinedTaken :: world where
  "undefinedTaken =
     \<lparr>store =
        \<lparr>identity = [\<lparr>i_name = ''undefined'', i_enabled = True, i_domain = None\<rparr>],
         user_identity =
           [\<lparr>ui_identity_name = ''undefined'', ui_user_pubkey = ''S2'',
             ui_membership_type = ''ADMIN''\<rparr>],
         user = [\<lparr>u_sender = ''S2'', u_primary_identity_name = Some ''undefined''\<rparr>]\<rparr>,
      reads = 0\<rparr>"

text \<open>What the resolver returns to \<^verbatim>\<open>S1\<close> for \<^verbatim>\<open>alice\<close> in the first registry.\<close>

definition aliceAdminS1 :: IExistingIdentityResult where
  "aliceAdminS1 =
     \<lparr>enabled = True, identityName = ''alice'', membershipType = ''ADMIN'',
      primaryIdentityName = Some ''alice'', sender = ''S1'', status = ADMIN\<rparr>"

text \<open>The commands \<^verbatim>\<open>id alice\<close> and \<^verbatim>\<open>id alice member S2\<close> of \<^verbatim>\<open>S1\<close>, run from the empty
  registry.\<close>

definition claimAlice :: intent where
  "claimAlice =
     \<lparr>in_name = ''alice'', in_member = None, in_admin = None, in_remove = None,
      in_domain = None, in_enable = False, in_disable = False, in_destroy = False\<rparr>"

definition afterClaim :: world where
  "afterClaim = snd (resolveAndApply claimAlice ''S1'' \<lparr>store = emptyDb, reads = 0\<rparr>)"

definition afterGrant :: world where
  "afterGrant = snd (resolveAndApply (claimAlice\<lparr>in_member := Some ''S2''\<rparr>) ''S1'' afterClaim)"

section \<open>The validator accepts the well-formed names\<close>

lemma inClass_lowerLetters: "inClass lowerLetters = isLower"
  by (rule ext) (simp add: inClass_def lowerLetters_def isLower_def)

lemma inClass_nameChars: "inClass nameChars = isNameChar"
  by (rule ext) (auto simp add: inClass_def nameChars_def isNameChar_def isLower_def isDigit_def)

lemma matchPlus_consumes_all:
  "[] \<in> set (matchPlus cls s) \<longleftrightarrow> s \<noteq> [] \<and> list_all (inClass cls) s"
  by (induction s) auto

lemma isValidIdentity_Str: "isValidIdentity (Str s) = wellFormedName s"
  by (cases s)
     (simp_all add: isValidIdentity_def regex_test_def identityRegex_def list_ex_iff
        inClass_lowerLetters inClass_nameChars matchPlus_consumes_all)

lemma upper_not_nameChar: "isUpper c \<Longrightarrow> \<not> isNameChar c"
  by (auto simp add: isUpper_def isNameChar_def isLower_def isDigit_def less_eq_char_def)

lemma upper_not_lower: "isUpper c \<Longrightarrow> \<not> isLower c"
  by (auto simp add: isUpper_def isLower_def less_eq_char_def)

lemma digit_not_lower: "isDigit c \<Longrightarrow> \<not> isLower c"
  by (auto simp add: isDigit_def isLower_def less_eq_char_def)

lemma lower_nameChar: "isLower c \<Longrightarrow> isNameChar c"
  by (simp add: isNameChar_def)

lemma wellFormed_all_nameChars: "wellFormedName s \<Longrightarrow> list_all isNameChar s"
  by (cases s) (simp_all add: lower_nameChar)

text \<open>
  Claim C4. For every string token, \<^verbatim>\<open>isValidIdentity\<close> returns true if and only if the
  token is a lowercase letter followed by one or more lowercase letters, digits or
  underscores, so an accepted token has length at least 2; a token that contains an
  uppercase letter, starts with a digit, has length 1, or contains any character other
  than a lowercase letter, a digit or an underscore is rejected.
\<close>

theorem isValidIdentity_iff_wellFormedName:
  "(isValidIdentity (Str s) \<longleftrightarrow> wellFormedName s) \<and>
   (isValidIdentity (Str s) \<longrightarrow> 2 \<le> length s) \<and>
   (list_ex isUpper s \<longrightarrow> \<not> isValidIdentity (Str s)) \<and>
   (list_ex isDigit (take 1 s) \<longrightarrow> \<not> isValidIdentity (Str s)) \<and>
   (length s = 1 \<longrightarrow> \<not> isValidIdentity (Str s)) \<and>
   (list_ex (\<lambda>c. \<not> isNameChar c) s \<longrightarrow> \<not> isValidIdentity (Str s))"
proof -
  have len: "wellFormedName s \<Longrightarrow> 2 \<le> length s"
    by (cases s) (auto simp add: Suc_le_eq)
  have up: "list_ex isUpper s \<Longrightarrow> \<not> wellFormedName s"
    using wellFormed_all_nameChars [of s] upper_not_nameChar
    by (auto simp add: list_ex_iff list_all_iff)
  have dig: "list_ex isDigit (take 1 s) \<Longrightarrow> \<not> wellFormedName s"
    by (cases s) (auto simp add: digit_not_lower)
  have other: "list_ex (\<lambda>c. \<not> isNameChar c) s \<Longrightarrow> \<not> wellFormedName s"
    using wellFormed_all_nameChars [of s]
    by (auto simp add: list_ex_iff list_all_iff)
  show ?thesis
    using len up dig other by (auto simp add: isValidIdentity_Str)
qed

text \<open>Witness for C4: an accepted name, and one rejected token for each clause.\<close>

theorem isValidIdentity_iff_wellFormedName_witness:
  "isValidIdentity (Str ''ab_9'') \<and> wellFormedName ''ab_9'' \<and> 2 \<le> length ''ab_9'' \<and>
   list_ex isUpper ''aB'' \<and> \<not> isValidIdentity (Str ''aB'') \<and>
   list_ex isDigit (take 1 ''9a'') \<and> \<not> isValidIdentity (Str ''9a'') \<and>
   length ''a'' = 1 \<and> \<not> isValidIdentity (Str ''a'') \<and>
   list_ex (\<lambda>c. \<not> isNameChar c) ''a-b'' \<and> \<not> isValidIdentity (Str ''a-b'')"
proof -
  have wf: "wellFormedName ''ab_9''" by code_simp
  have up: "list_ex isUpper ''aB''" by code_simp
  have dig: "list_ex isDigit (take 1 ''9a'')" by code_simp
  have one: "length ''a'' = 1" by simp
  have other: "list_ex (\<lambda>c. \<not> isNameChar c) ''a-b''" by code_simp
  have "isValidIdentity (Str ''ab_9'') \<and> 2 \<le> length ''ab_9''"
    using isValidIdentity_iff_wellFormedName [of "''ab_9''"] wf by blast
  moreover have "\<not> isValidIdentity (Str ''aB'')"
    using isValidIdentity_iff_wellFormedName [of "''aB''"] up by blast
  moreover have "\<not> isValidIdentity (Str ''9a'')"
    using isValidIdentity_iff_wellFormedName [of "''9a''"] dig by blast
  moreover have "\<not> isValidIdentity (Str ''a'')"
    using isValidIdentity_iff_wellFormedName [of "''a''"] one by blast
  moreover have "\<not> isValidIdentity (Str ''a-b'')"
    using isValidIdentity_iff_wellFormedName [of "''a-b''"] other by blast
  ultimately show ?thesis
    using wf up dig one other by blast
qed

section \<open>Properties of the resolver\<close>

lemma checkIdentityStatus_fst:
  "fst (checkIdentityStatus name sndr w) =
     (case joinRows (store w) name of
        [] \<Rightarrow> AVAILABLE
      | row # _ \<Rightarrow>
          if sender row = sndr
          then Existing \<lparr>enabled = enabled row, identityName = identityName row,
                   membershipType = membershipType row,
                   primaryIdentityName = primaryIdentityName row, sender = sndr,
                   status = (if membershipType row = ''ADMIN'' then ADMIN else MEMBER)\<rparr>
          else TAKEN)"
  by (simp add: checkIdentityStatus_def stmt_get_def split: list.splits)

lemma joinRows_set:
  "r \<in> set (joinRows d name) \<longleftrightarrow>
     (\<exists>ui \<in> set (user_identity d). \<exists>i \<in> set (identity d). \<exists>u \<in> set (user d).
        ui_identity_name ui = i_name i \<and> ui_user_pubkey ui = u_sender u \<and>
        Str (ui_identity_name ui) = name \<and> r = selectColumns ui i u)"
  apply (auto simp add: joinRows_def)
  apply (rule_tac x=ui in bexI)
   apply (rule_tac x=i in bexI)
    apply auto
  done


lemma joinRows_empty: "joinRows d (Str n) = [] \<longleftrightarrow> \<not> joins d n"
proof -
  have "joins d n" if "joinRows d (Str n) \<noteq> []"
  proof -
    from that obtain r where "r \<in> set (joinRows d (Str n))"
      by (cases "joinRows d (Str n)") auto
    then obtain ui i u where "ui \<in> set (user_identity d)" "i \<in> set (identity d)"
      "u \<in> set (user d)" "ui_identity_name ui = i_name i" "ui_user_pubkey ui = u_sender u"
      "ui_identity_name ui = n"
      unfolding joinRows_set by auto
    then show ?thesis
      unfolding joins_def list_ex_iff by (intro bexI [of _ ui]) auto
  qed
  moreover have "joinRows d (Str n) \<noteq> []" if "joins d n"
  proof -
    from that obtain ui i u where m: "ui \<in> set (user_identity d)" "i \<in> set (identity d)"
      "u \<in> set (user d)" "ui_identity_name ui = n" "i_name i = n"
      "u_sender u = ui_user_pubkey ui"
      unfolding joins_def list_ex_iff by blast
    have "selectColumns ui i u \<in> set (joinRows d (Str n))"
      unfolding joinRows_set
      by (rule bexI [OF _ m(1)], rule bexI [OF _ m(2)], rule bexI [OF _ m(3)]) (simp add: m)
    then show ?thesis by auto
  qed
  ultimately show ?thesis by blast
qed

text \<open>The resolver and the grammar on the examples.\<close>

lemma resolve_alice_S1:
  "checkIdentityStatus (Str ''alice'') ''S1'' twoMembers = (Existing aliceAdminS1, twoMembers\<lparr>reads := 1\<rparr>)"
  by (simp add: twoMembers_def aliceRow_def checkIdentityStatus_def stmt_get_def joinRows_def
      selectColumns_def aliceAdminS1_def)

lemma resolve_alice_S2:
  "checkIdentityStatus (Str ''alice'') ''S2'' twoMembers = (TAKEN, twoMembers\<lparr>reads := 1\<rparr>)"
  by (simp add: twoMembers_def aliceRow_def checkIdentityStatus_def stmt_get_def joinRows_def
      selectColumns_def)

lemma resolve_bob_S1:
  "checkIdentityStatus (Str ''bob'') ''S1'' twoMembers = (AVAILABLE, twoMembers\<lparr>reads := 1\<rparr>)"
  by (simp add: twoMembers_def aliceRow_def checkIdentityStatus_def stmt_get_def joinRows_def
      selectColumns_def)

lemma resolve_undefined:
  "checkIdentityStatus Undefined ''S1'' twoMembers = (AVAILABLE, twoMembers\<lparr>reads := 1\<rparr>)"
  by (simp add: twoMembers_def aliceRow_def checkIdentityStatus_def stmt_get_def joinRows_def
      selectColumns_def)

lemma parser_id_Alice:
  "parser ''id Alice'' = Parsed (scan optionTable [''id'', ''Alice''] (\<lambda>_. Undefined))"
  by (simp add: parser_def humanist_def)

lemma parser_Id_foo:
  "parser ''Id foo'' = Parsed (scan optionTable [''Id'', ''foo''] (\<lambda>_. Undefined))"
  by (simp add: parser_def humanist_def)

lemma parser_id_alice:
  "parser ''id alice'' = Parsed (scan optionTable [''id'', ''alice''] (\<lambda>_. Undefined))"
  by (simp add: parser_def humanist_def)

lemma parser_id_bob:
  "parser ''id bob'' = Parsed (scan optionTable [''id'', ''bob''] (\<lambda>_. Undefined))"
  by (simp add: parser_def humanist_def)

lemma scan_id: "scan optionTable [''id'', v] (\<lambda>_. Undefined) ''id'' = Str v"
  by (simp add: optionTable_def)

lemma scan_Id: "scan optionTable [''Id'', v] (\<lambda>_. Undefined) ''id'' = Undefined"
  by (simp add: optionTable_def)

text \<open>
  Claim C1, evaluated on the code. The identity \<^verbatim>\<open>alice\<close> has two members: the join
  yields the row of \<^verbatim>\<open>S1\<close> and the row of \<^verbatim>\<open>S2\<close>. The statement's \<^verbatim>\<open>get\<close> hands the
  resolver the first row only, so for the caller \<^verbatim>\<open>S2\<close>, whose own row is in the join,
  the resolver answers TAKEN where the claim asks for the EXISTING result of that row.
\<close>

theorem checkIdentityStatus_second_member_taken:
  "joinRows (store twoMembers) (Str ''alice'') =
     [\<lparr>enabled = True, identityName = ''alice'', membershipType = ''ADMIN'',
       primaryIdentityName = Some ''alice'', sender = ''S1''\<rparr>,
      \<lparr>enabled = True, identityName = ''alice'', membershipType = ''MEMBER'',
       primaryIdentityName = None, sender = ''S2''\<rparr>] \<and>
   fst (checkIdentityStatus (Str ''alice'') ''S2'' twoMembers) = TAKEN"
  by (simp add: twoMembers_def aliceRow_def checkIdentityStatus_def stmt_get_def joinRows_def
      selectColumns_def)

text \<open>
  Claim C2 fails as stated: here an Identity row named \<^verbatim>\<open>alice\<close> exists and no sender
  holds a membership on it, and the resolver answers AVAILABLE, not TAKEN.
\<close>

theorem checkIdentityStatus_available_with_identity_row:
  "identity (store noMembers) = [aliceRow] \<and> i_name aliceRow = ''alice'' \<and>
   fst (checkIdentityStatus (Str ''alice'') ''S1'' noMembers) = AVAILABLE"
  by (simp add: noMembers_def aliceRow_def checkIdentityStatus_def stmt_get_def joinRows_def)

text \<open>
  Claim C2, amended. The resolver returns AVAILABLE exactly when the join of Membership,
  Identity and User has no row for the name; in particular it returns AVAILABLE when no
  Identity row with that name exists, and also when no sender holds a membership on the
  name, whether or not an Identity row exists.
\<close>

theorem checkIdentityStatus_available_iff_no_join:
  "(fst (checkIdentityStatus (Str n) sndr w) = AVAILABLE \<longleftrightarrow> \<not> joins (store w) n) \<and>
   (\<not> list_ex (\<lambda>i. i_name i = n) (identity (store w)) \<longrightarrow>
      fst (checkIdentityStatus (Str n) sndr w) = AVAILABLE) \<and>
   (\<not> hasMembers (store w) n \<longrightarrow> fst (checkIdentityStatus (Str n) sndr w) = AVAILABLE)"
proof -
  have av: "fst (checkIdentityStatus (Str n) sndr w) = AVAILABLE \<longleftrightarrow> \<not> joins (store w) n"
    unfolding joinRows_empty [symmetric]
    by (simp add: checkIdentityStatus_fst split: list.splits)
  have "\<not> list_ex (\<lambda>i. i_name i = n) (identity (store w)) \<Longrightarrow> \<not> joins (store w) n"
    by (auto simp add: joins_def list_ex_iff)
  moreover have "\<not> hasMembers (store w) n \<Longrightarrow> \<not> joins (store w) n"
    by (auto simp add: joins_def hasMembers_def list_ex_iff)
  ultimately show ?thesis using av by blast
qed

text \<open>Witness for C2: a name with a joined row, a name with no Identity row, and an
  Identity row without memberships.\<close>

theorem checkIdentityStatus_available_iff_no_join_witness:
  "joins (store twoMembers) ''alice'' \<and>
   fst (checkIdentityStatus (Str ''alice'') ''S1'' twoMembers) \<noteq> AVAILABLE \<and>
   \<not> list_ex (\<lambda>i. i_name i = ''bob'') (identity (store twoMembers)) \<and>
   fst (checkIdentityStatus (Str ''bob'') ''S1'' twoMembers) = AVAILABLE \<and>
   \<not> hasMembers (store noMembers) ''alice'' \<and>
   fst (checkIdentityStatus (Str ''alice'') ''S1'' noMembers) = AVAILABLE"
proof -
  have a: "joins (store twoMembers) ''alice''"
    by (simp add: joins_def twoMembers_def aliceRow_def)
  have b: "\<not> list_ex (\<lambda>i. i_name i = ''bob'') (identity (store twoMembers))"
    by (simp add: twoMembers_def aliceRow_def)
  have c: "\<not> hasMembers (store noMembers) ''alice''"
    by (simp add: hasMembers_def noMembers_def)
  show ?thesis
    using a b c
      checkIdentityStatus_available_iff_no_join [of "''alice''" "''S1''" twoMembers]
      checkIdentityStatus_available_iff_no_join [of "''bob''" "''S1''" twoMembers]
      checkIdentityStatus_available_iff_no_join [of "''alice''" "''S1''" noMembers]
    by blast
qed

text \<open>An EXISTING result is built from a membership row of the caller.\<close>

lemma existing_result_row:
  assumes "fst (checkIdentityStatus name sndr w) = Existing r"
  shows "status r = (if membershipType r = ''ADMIN'' then ADMIN else MEMBER) \<and>
         sender r = sndr \<and>
         (\<exists>ui \<in> set (user_identity (store w)).
            Str (ui_identity_name ui) = name \<and> ui_user_pubkey ui = sndr \<and>
            ui_membership_type ui = membershipType r \<and>
            ui_identity_name ui = identityName r)"
proof -
  from assms obtain row rest where j: "joinRows (store w) name = row # rest"
    and s: "sender row = sndr"
    and r: "r = \<lparr>enabled = enabled row, identityName = identityName row,
                   membershipType = membershipType row,
                   primaryIdentityName = primaryIdentityName row, sender = sndr,
                   status = (if membershipType row = ''ADMIN'' then ADMIN else MEMBER)\<rparr>"
    by (auto simp add: checkIdentityStatus_fst split: list.splits if_splits)
  from j have "row \<in> set (joinRows (store w) name)" by simp
  then obtain ui i u where ui: "ui \<in> set (user_identity (store w))"
    and eqs: "ui_identity_name ui = i_name i" "ui_user_pubkey ui = u_sender u"
      "Str (ui_identity_name ui) = name" "row = selectColumns ui i u"
    unfolding joinRows_set by blast
  from eqs s have "Str (ui_identity_name ui) = name \<and> ui_user_pubkey ui = sndr \<and>
      ui_membership_type ui = membershipType r \<and> ui_identity_name ui = identityName r"
    by (simp add: r selectColumns_def)
  with ui show ?thesis by (auto simp add: r)
qed



text \<open>
  Claim C8. For every identity name and sender, a call of the resolver runs the one
  statement once and leaves the tables as they were.
\<close>

theorem checkIdentityStatus_one_read_no_write:
  "snd (checkIdentityStatus name sndr w) = w\<lparr>reads := reads w + 1\<rparr>"
  by (simp add: checkIdentityStatus_def stmt_get_def split: list.splits)

section \<open>Properties of the dispatcher\<close>

text \<open>
  Claim C5. If the lower-cased command does not start with \<^verbatim>\<open>id \<close>, or the name the
  parser returned fails validation, \<^verbatim>\<open>handle\<close> returns \<^verbatim>\<open>undefined\<close> and the state is the one
  it started from: no statement was run, no table changed and no handler was called.
\<close>

theorem handle_unhandled_without_store_access:
  assumes "\<not> startsWith (toLowerCase command) ''id '' \<or>
           (parse command = Parsed args \<and> \<not> isValidIdentity (args ''id''))"
  shows "handle parse createIdentity alreadyTaken modifyIdentity command message w = (Inr None, w)"
  using assms by (auto simp add: handle_def)

text \<open>Witness for C5: a command outside the \<^verbatim>\<open>id\<close> family, and one whose name is not valid.\<close>

theorem handle_unhandled_without_store_access_witness:
  "\<not> startsWith (toLowerCase ''help'') ''id '' \<and>
   handle parser reportCreate reportTaken reportModify ''help'' fromS1 twoMembers
     = (Inr None, twoMembers) \<and>
   startsWith (toLowerCase ''id Alice'') ''id '' \<and>
   \<not> isValidIdentity (Str ''Alice'') \<and>
   handle parser reportCreate reportTaken reportModify ''id Alice'' fromS1 twoMembers
     = (Inr None, twoMembers)"
proof -
  have a: "\<not> startsWith (toLowerCase ''help'') ''id ''" by code_simp
  have b: "startsWith (toLowerCase ''id Alice'') ''id ''" by code_simp
  have c: "\<not> isValidIdentity (Str ''Alice'')" by code_simp
  have "handle parser reportCreate reportTaken reportModify ''help'' fromS1 twoMembers
     = (Inr None, twoMembers)"
    using a by (rule handle_unhandled_without_store_access [OF disjI1])
  moreover have "handle parser reportCreate reportTaken reportModify ''id Alice'' fromS1 twoMembers
     = (Inr None, twoMembers)"
    using handle_unhandled_without_store_access [of "''id Alice''" parser
        "scan optionTable [''id'', ''Alice''] (\<lambda>_. Undefined)"] parser_id_Alice scan_id c
    by simp
  ultimately show ?thesis using a b c by simp
qed

text \<open>
  Claim C6, evaluated on the code. The command \<^verbatim>\<open>Id foo\<close> passes the prefix test in lower
  case and is not parsed by the case-sensitive grammar: no \<^verbatim>\<open>id\<close> is captured. The
  dispatcher does not return \<^verbatim>\<open>undefined\<close>: the missing name passes the validator, the
  resolver runs, and the create handler's response comes back. A parser that throws is
  not caught either.
\<close>

theorem handle_unparsed_command_not_unhandled:
  "startsWith (toLowerCase ''Id foo'') ''id '' \<and>
   handle parser reportCreate reportTaken reportModify ''Id foo'' fromS1 twoMembers
     = (Inr (Some ''createIdentity''), twoMembers\<lparr>reads := 1\<rparr>) \<and>
   handle (\<lambda>c. Thrown) reportCreate reportTaken reportModify ''Id foo'' fromS1 twoMembers
     = (Inl ParserException, twoMembers)"
  by code_simp

text \<open>The state the resolver returns.\<close>

lemma resolver_state:
  "snd (checkIdentityStatus name sndr w) = w\<lparr>reads := reads w + 1\<rparr>"
  by (simp add: checkIdentityStatus_def stmt_get_def split: list.splits)

lemma joinRows_Undefined: "joinRows d Undefined = []"
proof (cases "joinRows d Undefined")
  case Nil
  then show ?thesis .
next
  case (Cons r rs)
  then have "r \<in> set (joinRows d Undefined)" by simp
  then show ?thesis unfolding joinRows_set by simp
qed

lemma resolve_Undefined_available:
  "checkIdentityStatus Undefined sndr w = (AVAILABLE, w\<lparr>reads := reads w + 1\<rparr>)"
  by (simp add: checkIdentityStatus_def stmt_get_def joinRows_Undefined)

text \<open>
  Claim C9. For a command that passes the prefix test, the parse and the validation,
  \<^verbatim>\<open>handle\<close> goes by the resolved status: AVAILABLE to the create handler, TAKEN to the
  already-taken handler, and every EXISTING status to the modify handler, which gets the
  status and the parsed arguments; \<^verbatim>\<open>handle\<close> returns the handler's response and state
  unchanged. With the already-taken handler of section 4.4, a TAKEN status gives the
  "already taken" rejection and the tables are the ones the command started from: no
  mutation, whatever the other two handlers are.
\<close>

theorem handle_dispatches_on_status:
  assumes "startsWith (toLowerCase command) ''id ''"
    and "parse command = Parsed args"
    and "isValidIdentity (args ''id'')"
    and "checkIdentityStatus (args ''id'') (msg_sender message) w = (st, w')"
  shows "(st = AVAILABLE \<longrightarrow>
            handle parse createIdentity alreadyTaken modifyIdentity command message w =
              (Inr (Some (fst (createIdentity (args ''id'') (msg_sender message) command message w'))),
               snd (createIdentity (args ''id'') (msg_sender message) command message w'))) \<and>
         (st = TAKEN \<longrightarrow>
            handle parse createIdentity alreadyTaken modifyIdentity command message w =
              (Inr (Some (fst (alreadyTaken (args ''id'') (msg_sender message) command message w'))),
               snd (alreadyTaken (args ''id'') (msg_sender message) command message w'))) \<and>
         (\<forall>r. st = Existing r \<longrightarrow>
            handle parse createIdentity alreadyTaken modifyIdentity command message w =
              (Inr (Some (fst (modifyIdentity r args command message w'))),
               snd (modifyIdentity r args command message w'))) \<and>
         (st = TAKEN \<longrightarrow>
            handle parse createH alreadyTakenHandler modifyH command message w =
              (Inr (Some (Rejected Conflict)), w\<lparr>reads := reads w + 1\<rparr>) \<and>
            store (snd (handle parse createH alreadyTakenHandler modifyH command message w)) =
              store w)"
proof -
  have w': "w' = w\<lparr>reads := reads w + 1\<rparr>"
    using assms(4) resolver_state [of "args ''id''" "msg_sender message" w] by simp
  have t: "alreadyTakenHandler (args ''id'') (msg_sender message) command message w' =
      (Rejected Conflict, w')"
    by (simp add: alreadyTakenHandler_def alreadyTaken_spec_def)
  show ?thesis
    using assms t by (simp add: handle_def w' split: prod.splits)
qed

text \<open>Witness for C9: one command for each status.\<close>

theorem handle_dispatches_on_status_witness:
  "startsWith (toLowerCase ''id alice'') ''id '' \<and> isValidIdentity (Str ''alice'') \<and>
   handle parser reportCreate reportTaken reportModify ''id alice'' fromS1 twoMembers
     = (Inr (Some ''modifyIdentity''), twoMembers\<lparr>reads := 1\<rparr>) \<and>
   handle parser reportCreate reportTaken reportModify ''id alice'' fromS2 twoMembers
     = (Inr (Some ''alreadyTaken''), twoMembers\<lparr>reads := 1\<rparr>) \<and>
   startsWith (toLowerCase ''id bob'') ''id '' \<and> isValidIdentity (Str ''bob'') \<and>
   handle parser reportCreate reportTaken reportModify ''id bob'' fromS1 twoMembers
     = (Inr (Some ''createIdentity''), twoMembers\<lparr>reads := 1\<rparr>) \<and>
   handle parser alreadyTakenHandler alreadyTakenHandler (\<lambda>r a c m w. (Success, w))
       ''id alice'' fromS2 twoMembers
     = (Inr (Some (Rejected Conflict)), twoMembers\<lparr>reads := 1\<rparr>) \<and>
   store (snd (handle parser alreadyTakenHandler alreadyTakenHandler (\<lambda>r a c m w. (Success, w))
                 ''id alice'' fromS2 twoMembers))
     = store twoMembers"
proof -
  have pa: "startsWith (toLowerCase ''id alice'') ''id ''" by code_simp
  have pb: "startsWith (toLowerCase ''id bob'') ''id ''" by code_simp
  have rd: "reads twoMembers = 0" by (simp add: twoMembers_def)
  have va: "isValidIdentity (scan optionTable [''id'', ''alice''] (\<lambda>_. Undefined) ''id'')"
    unfolding scan_id by code_simp
  have vb: "isValidIdentity (scan optionTable [''id'', ''bob''] (\<lambda>_. Undefined) ''id'')"
    unfolding scan_id by code_simp
  have ra: "checkIdentityStatus (scan optionTable [''id'', ''alice''] (\<lambda>_. Undefined) ''id'')
      (msg_sender fromS1) twoMembers = (Existing aliceAdminS1, twoMembers\<lparr>reads := 1\<rparr>)"
    by (simp only: scan_id fromS1_def IMessage.simps resolve_alice_S1)
  have rt: "checkIdentityStatus (scan optionTable [''id'', ''alice''] (\<lambda>_. Undefined) ''id'')
      (msg_sender fromS2) twoMembers = (TAKEN, twoMembers\<lparr>reads := 1\<rparr>)"
    by (simp only: scan_id fromS2_def IMessage.simps resolve_alice_S2)
  have rb: "checkIdentityStatus (scan optionTable [''id'', ''bob''] (\<lambda>_. Undefined) ''id'')
      (msg_sender fromS1) twoMembers = (AVAILABLE, twoMembers\<lparr>reads := 1\<rparr>)"
    by (simp only: scan_id fromS1_def IMessage.simps resolve_bob_S1)
  have "handle parser reportCreate reportTaken reportModify ''id alice'' fromS1 twoMembers
     = (Inr (Some ''modifyIdentity''), twoMembers\<lparr>reads := 1\<rparr>)"
    using handle_dispatches_on_status [where parse = parser
          and args = "scan optionTable [''id'', ''alice''] (\<lambda>_. Undefined)"
          and createIdentity = reportCreate and alreadyTaken = reportTaken
          and modifyIdentity = reportModify, OF pa parser_id_alice va ra]
    by (simp add: reportModify_def)
  moreover have "handle parser reportCreate reportTaken reportModify ''id alice'' fromS2 twoMembers
     = (Inr (Some ''alreadyTaken''), twoMembers\<lparr>reads := 1\<rparr>)"
    using handle_dispatches_on_status [where parse = parser
          and args = "scan optionTable [''id'', ''alice''] (\<lambda>_. Undefined)"
          and createIdentity = reportCreate and alreadyTaken = reportTaken
          and modifyIdentity = reportModify, OF pa parser_id_alice va rt]
    by (simp add: reportTaken_def)
  moreover have "handle parser reportCreate reportTaken reportModify ''id bob'' fromS1 twoMembers
     = (Inr (Some ''createIdentity''), twoMembers\<lparr>reads := 1\<rparr>)"
    using handle_dispatches_on_status [where parse = parser
          and args = "scan optionTable [''id'', ''bob''] (\<lambda>_. Undefined)"
          and createIdentity = reportCreate and alreadyTaken = reportTaken
          and modifyIdentity = reportModify, OF pb parser_id_bob vb rb]
    by (simp add: reportCreate_def)
  moreover have "handle parser alreadyTakenHandler alreadyTakenHandler
       (\<lambda>r a c m w. (Success, w)) ''id alice'' fromS2 twoMembers
     = (Inr (Some (Rejected Conflict)), twoMembers\<lparr>reads := 1\<rparr>) \<and>
   store (snd (handle parser alreadyTakenHandler alreadyTakenHandler
                 (\<lambda>r a c m w. (Success, w)) ''id alice'' fromS2 twoMembers))
     = store twoMembers"
    using handle_dispatches_on_status [where parse = parser
          and args = "scan optionTable [''id'', ''alice''] (\<lambda>_. Undefined)"
          and createIdentity = reportCreate and alreadyTaken = reportTaken
          and modifyIdentity = reportModify
          and createH = alreadyTakenHandler
          and modifyH = "\<lambda>r a c m w. (Success, w)", OF pa parser_id_alice va rt]
      rd
    by simp
  moreover have "isValidIdentity (Str ''alice'')" "isValidIdentity (Str ''bob'')"
    using va vb by (simp_all only: scan_id)
  ultimately show ?thesis using pa pb by simp
qed

text \<open>
  Claim C10 fails as stated in its last clause. In a registry where \<^verbatim>\<open>S2\<close> owns an identity
  whose name is the string \<^verbatim>\<open>undefined\<close>, resolving that literal name for \<^verbatim>\<open>S1\<close> gives TAKEN,
  as the command \<^verbatim>\<open>id undefined\<close> shows; the command \<^verbatim>\<open>Id foo\<close>, for which the parser
  returns no \<^verbatim>\<open>id\<close>, is resolved as AVAILABLE and reaches the create handler. What
  \<^verbatim>\<open>handle\<close> resolves is the value \<^verbatim>\<open>undefined\<close>, not the name \<^verbatim>\<open>undefined\<close>.
\<close>

theorem handle_resolves_undefined_value_not_name:
  "fst (checkIdentityStatus (Str ''undefined'') ''S1'' undefinedTaken) = TAKEN \<and>
   handle parser reportCreate reportTaken reportModify ''id undefined'' fromS1 undefinedTaken
     = (Inr (Some ''alreadyTaken''), undefinedTaken\<lparr>reads := 1\<rparr>) \<and>
   fst (checkIdentityStatus Undefined ''S1'' undefinedTaken) = AVAILABLE \<and>
   handle parser reportCreate reportTaken reportModify ''Id foo'' fromS1 undefinedTaken
     = (Inr (Some ''createIdentity''), undefinedTaken\<lparr>reads := 1\<rparr>)"
  by code_simp

text \<open>
  Claim C10, amended. \<^verbatim>\<open>isValidIdentity\<close> returns true for \<^verbatim>\<open>undefined\<close>, which the test
  reads as the string \<^verbatim>\<open>undefined\<close>. So when the parser returns no value under the key
  \<^verbatim>\<open>id\<close> for a command whose lower-cased form starts with \<^verbatim>\<open>id \<close>, \<^verbatim>\<open>handle\<close> does not
  return \<^verbatim>\<open>undefined\<close>: it resolves the value \<^verbatim>\<open>undefined\<close> itself, which equals no stored
  identity name, so the status is AVAILABLE in every registry, and it returns the
  response of the create handler, called with that value as the name.
\<close>

theorem isValidIdentity_undefined_passes:
  "isValidIdentity Undefined \<and>
   (startsWith (toLowerCase command) ''id '' \<and> parse command = Parsed args \<and>
    args ''id'' = Undefined \<longrightarrow>
      fst (handle parse createIdentity alreadyTaken modifyIdentity command message w) \<noteq> Inr None \<and>
      handle parse createIdentity alreadyTaken modifyIdentity command message w =
        (case checkIdentityStatus Undefined (msg_sender message) w of
           (AVAILABLE, w') \<Rightarrow>
             (Inr (Some (fst (createIdentity Undefined (msg_sender message) command message w'))),
              snd (createIdentity Undefined (msg_sender message) command message w'))
         | (TAKEN, w') \<Rightarrow>
             (Inr (Some (fst (alreadyTaken Undefined (msg_sender message) command message w'))),
              snd (alreadyTaken Undefined (msg_sender message) command message w'))
         | (Existing r, w') \<Rightarrow>
             (Inr (Some (fst (modifyIdentity r args command message w'))),
              snd (modifyIdentity r args command message w'))) \<and>
      checkIdentityStatus Undefined (msg_sender message) w =
        (AVAILABLE, w\<lparr>reads := reads w + 1\<rparr>) \<and>
      handle parse createIdentity alreadyTaken modifyIdentity command message w =
        (Inr (Some (fst (createIdentity Undefined (msg_sender message) command message
                           (w\<lparr>reads := reads w + 1\<rparr>)))),
         snd (createIdentity Undefined (msg_sender message) command message
                (w\<lparr>reads := reads w + 1\<rparr>))))"
proof -
  have v: "isValidIdentity Undefined"
    by (simp add: isValidIdentity_def regex_test_def identityRegex_def lowerLetters_def
        nameChars_def inClass_def less_eq_char_def)
  show ?thesis
    using v
    by (auto simp add: handle_def resolve_Undefined_available split: prod.splits)
qed

text \<open>Witness for C10: the command \<^verbatim>\<open>Id foo\<close>.\<close>

theorem isValidIdentity_undefined_passes_witness:
  "isValidIdentity Undefined \<and>
   startsWith (toLowerCase ''Id foo'') ''id '' \<and>
   parser ''Id foo'' = Parsed (scan optionTable [''Id'', ''foo''] (\<lambda>_. Undefined)) \<and>
   scan optionTable [''Id'', ''foo''] (\<lambda>_. Undefined) ''id'' = Undefined \<and>
   fst (handle parser reportCreate reportTaken reportModify ''Id foo'' fromS1 twoMembers)
     \<noteq> Inr None \<and>
   handle parser reportCreate reportTaken reportModify ''Id foo'' fromS1 twoMembers
     = (Inr (Some ''createIdentity''), twoMembers\<lparr>reads := 1\<rparr>)"
proof -
  have p: "startsWith (toLowerCase ''Id foo'') ''id ''" by code_simp
  have s: "msg_sender fromS1 = ''S1''" by (simp add: fromS1_def)
  show ?thesis
    using p parser_Id_foo scan_Id [of "''foo''"]
      isValidIdentity_undefined_passes [of "''Id foo''" parser
        "scan optionTable [''Id'', ''foo''] (\<lambda>_. Undefined)"
        reportCreate reportTaken reportModify fromS1 twoMembers]
    by (simp add: s resolve_undefined reportCreate_def)
qed

section \<open>The engine keeps the admin invariant\<close>

lemma hasAdmin_iff:
  "hasAdmin d n \<longleftrightarrow>
     (\<exists>m \<in> set (user_identity d). ui_identity_name m = n \<and> ui_membership_type m = ''ADMIN'')"
  by (simp add: hasAdmin_def list_ex_iff)

lemma isAdmin_iff:
  "isAdmin d n x \<longleftrightarrow>
     (\<exists>m \<in> set (user_identity d). ui_identity_name m = n \<and> ui_user_pubkey m = x \<and>
        ui_membership_type m = ''ADMIN'')"
  by (simp add: isAdmin_def list_ex_iff)

lemma otherAdmin_iff:
  "otherAdmin d n x \<longleftrightarrow>
     (\<exists>m \<in> set (user_identity d). ui_identity_name m = n \<and> ui_user_pubkey m \<noteq> x \<and>
        ui_membership_type m = ''ADMIN'')"
  by (simp add: otherAdmin_def list_ex_iff)

lemma isMember_iff:
  "isMember d n x \<longleftrightarrow>
     (\<exists>m \<in> set (user_identity d). ui_identity_name m = n \<and> ui_user_pubkey m = x)"
  by (simp add: isMember_def list_ex_iff)

lemma adminInvariant_iff:
  "adminInvariant d \<longleftrightarrow> (\<forall>m \<in> set (user_identity d). hasAdmin d (ui_identity_name m))"
  by (simp add: adminInvariant_def list_all_iff)

lemma hasAdmin_cases: "hasAdmin d n \<longleftrightarrow> isAdmin d n x \<or> otherAdmin d n x"
  by (auto simp add: hasAdmin_iff isAdmin_iff otherAdmin_iff)

lemma isAdmin_hasAdmin: "isAdmin d n x \<Longrightarrow> hasAdmin d n"
  by (simp add: hasAdmin_cases [of d n x])

lemma user_identity_ensureUser [simp]: "user_identity (ensureUser d x) = user_identity d"
  by (simp add: ensureUser_def)

lemma hasAdmin_ensureUser [simp]: "hasAdmin (ensureUser d x) n = hasAdmin d n"
  by (simp add: hasAdmin_def)

lemma otherAdmin_ensureUser [simp]: "otherAdmin (ensureUser d x) n y = otherAdmin d n y"
  by (simp add: otherAdmin_def)

lemma adminInvariant_ensureUser [simp]: "adminInvariant (ensureUser d x) = adminInvariant d"
  by (simp add: adminInvariant_def)

lemma user_identity_updateIdentity [simp]: "user_identity (updateIdentity d n f) = user_identity d"
  by (simp add: updateIdentity_def)

lemma hasAdmin_updateIdentity [simp]: "hasAdmin (updateIdentity d n f) n' = hasAdmin d n'"
  by (simp add: hasAdmin_def)

lemma adminInvariant_updateIdentity [simp]:
  "adminInvariant (updateIdentity d n f) = adminInvariant d"
  by (simp add: adminInvariant_def)

subsection \<open>Granting\<close>

lemma setMembership_rows:
  "m \<in> set (user_identity (setMembership d n x t)) \<Longrightarrow>
     (ui_identity_name m = n \<and> ui_user_pubkey m = x \<and> ui_membership_type m = t) \<or>
     (m \<in> set (user_identity d) \<and> \<not> (ui_identity_name m = n \<and> ui_user_pubkey m = x))"
  by (auto simp add: setMembership_def isMember_iff split: if_splits)

lemma setMembership_keeps:
  "m \<in> set (user_identity d) \<Longrightarrow> \<not> (ui_identity_name m = n \<and> ui_user_pubkey m = x) \<Longrightarrow>
     m \<in> set (user_identity (setMembership d n x t))"
  by (force simp add: setMembership_def)

lemma setMembership_has_row:
  "\<exists>m \<in> set (user_identity (setMembership d n x t)).
     ui_identity_name m = n \<and> ui_user_pubkey m = x \<and> ui_membership_type m = t"
proof (cases "isMember d n x")
  case True
  then obtain m where m: "m \<in> set (user_identity d)" "ui_identity_name m = n"
    "ui_user_pubkey m = x"
    unfolding isMember_iff by blast
  let ?f = "\<lambda>m. if ui_identity_name m = n \<and> ui_user_pubkey m = x
                 then m\<lparr>ui_membership_type := t\<rparr> else m"
  have "?f m \<in> set (user_identity (setMembership d n x t))"
    using True m(1) by (simp add: setMembership_def)
  then show ?thesis using m(2,3) by (intro bexI [of _ "?f m"]) simp_all
next
  case False
  then show ?thesis by (simp add: setMembership_def)
qed

lemma hasAdmin_setMembership_other:
  "n' \<noteq> n \<Longrightarrow> hasAdmin (setMembership d n x t) n' = hasAdmin d n'"
  unfolding hasAdmin_iff
  by (metis setMembership_rows setMembership_keeps)

lemma hasAdmin_setMembership_same:
  "hasAdmin (setMembership d n x t) n \<longleftrightarrow> t = ''ADMIN'' \<or> otherAdmin d n x"
proof
  assume "hasAdmin (setMembership d n x t) n"
  then obtain m where "m \<in> set (user_identity (setMembership d n x t))"
    "ui_identity_name m = n" "ui_membership_type m = ''ADMIN''"
    unfolding hasAdmin_iff by blast
  then show "t = ''ADMIN'' \<or> otherAdmin d n x"
    using setMembership_rows [of m d n x t] unfolding otherAdmin_iff by blast
next
  assume "t = ''ADMIN'' \<or> otherAdmin d n x"
  then show "hasAdmin (setMembership d n x t) n"
  proof
    assume "t = ''ADMIN''"
    then show ?thesis using setMembership_has_row [of d n x t] unfolding hasAdmin_iff by blast
  next
    assume "otherAdmin d n x"
    then obtain m where "m \<in> set (user_identity d)" "ui_identity_name m = n"
      "ui_user_pubkey m \<noteq> x" "ui_membership_type m = ''ADMIN''"
      unfolding otherAdmin_iff by blast
    then show ?thesis using setMembership_keeps [of m d n x t] unfolding hasAdmin_iff by blast
  qed
qed

lemma adminInvariant_setMembership:
  assumes "adminInvariant d" and "hasAdmin (setMembership d n x t) n"
  shows "adminInvariant (setMembership d n x t)"
  unfolding adminInvariant_iff
proof
  fix m assume m: "m \<in> set (user_identity (setMembership d n x t))"
  show "hasAdmin (setMembership d n x t) (ui_identity_name m)"
  proof (cases "ui_identity_name m = n")
    case True
    then show ?thesis using assms(2) by simp
  next
    case False
    with setMembership_rows [OF m] have "m \<in> set (user_identity d)" by blast
    with assms(1) have "hasAdmin d (ui_identity_name m)" by (simp add: adminInvariant_iff)
    then show ?thesis using False by (simp add: hasAdmin_setMembership_other)
  qed
qed

subsection \<open>Removing\<close>

lemma set_deleteMembership:
  "set (user_identity (deleteMembership d n x)) =
     {m \<in> set (user_identity d). \<not> (ui_identity_name m = n \<and> ui_user_pubkey m = x)}"
  by (simp add: deleteMembership_def)

lemma hasAdmin_deleteMembership_other:
  "n' \<noteq> n \<Longrightarrow> hasAdmin (deleteMembership d n x) n' = hasAdmin d n'"
  unfolding hasAdmin_iff set_deleteMembership by auto

lemma hasAdmin_deleteMembership_same:
  "hasAdmin (deleteMembership d n x) n = otherAdmin d n x"
  unfolding hasAdmin_iff otherAdmin_iff set_deleteMembership by auto

lemma adminInvariant_deleteMembership:
  assumes "adminInvariant d" and "\<not> isAdmin d n x \<or> otherAdmin d n x"
  shows "adminInvariant (deleteMembership d n x)"
  unfolding adminInvariant_iff
proof
  fix m assume m: "m \<in> set (user_identity (deleteMembership d n x))"
  then have md: "m \<in> set (user_identity d)" by (simp add: set_deleteMembership)
  with assms(1) have h: "hasAdmin d (ui_identity_name m)" by (simp add: adminInvariant_iff)
  show "hasAdmin (deleteMembership d n x) (ui_identity_name m)"
  proof (cases "ui_identity_name m = n")
    case True
    with h assms(2) have "otherAdmin d n x" using hasAdmin_cases [of d n x] by blast
    then show ?thesis using True by (simp add: hasAdmin_deleteMembership_same)
  next
    case False
    then show ?thesis using h by (simp add: hasAdmin_deleteMembership_other)
  qed
qed

subsection \<open>Destroying\<close>

lemma set_deleteIdentity:
  "set (user_identity (deleteIdentity d n)) = {m \<in> set (user_identity d). ui_identity_name m \<noteq> n}"
  by (simp add: deleteIdentity_def)

lemma adminInvariant_deleteIdentity:
  assumes "adminInvariant d"
  shows "adminInvariant (deleteIdentity d n)"
  unfolding adminInvariant_iff
proof
  fix m assume "m \<in> set (user_identity (deleteIdentity d n))"
  then have m: "m \<in> set (user_identity d)" "ui_identity_name m \<noteq> n"
    by (simp_all add: set_deleteIdentity)
  with assms obtain a where "a \<in> set (user_identity d)"
    "ui_identity_name a = ui_identity_name m" "ui_membership_type a = ''ADMIN''"
    unfolding adminInvariant_iff hasAdmin_iff by blast
  with m(2) show "hasAdmin (deleteIdentity d n) (ui_identity_name m)"
    unfolding hasAdmin_iff set_deleteIdentity by auto
qed

subsection \<open>Creating\<close>

lemma adminInvariant_createIdentity:
  assumes "adminInvariant d"
  shows "adminInvariant (snd (createIdentity_spec n sndr d))"
proof (cases "list_ex (\<lambda>i. i_name i = n) (identity d)")
  case True
  then show ?thesis using assms by (simp add: createIdentity_spec_def)
next
  case False
  have "\<And>m. m \<in> set (user_identity d) \<Longrightarrow> hasAdmin d (ui_identity_name m)"
    using assms by (simp add: adminInvariant_iff)
  then show ?thesis using False
    unfolding adminInvariant_iff hasAdmin_iff
    by (auto simp add: createIdentity_spec_def Let_def)
qed


subsection \<open>One modifier\<close>

lemma applyModifier_keeps_admin:
  assumes "applyModifier n m d = Inr d'" and "m \<noteq> Destroy" and "hasAdmin d n"
  shows "hasAdmin d' n"
proof (cases m)
  case (GrantMember x)
  with assms have "otherAdmin d n x" "d' = setMembership (ensureUser d x) n x ''MEMBER''"
    using hasAdmin_cases [of d n x] by (auto split: if_splits)
  then show ?thesis by (simp add: hasAdmin_setMembership_same)
next
  case (GrantAdmin x)
  with assms show ?thesis by (auto simp add: hasAdmin_setMembership_same)
next
  case (RemoveMember x)
  with assms have "otherAdmin d n x" "d' = deleteMembership d n x"
    using hasAdmin_cases [of d n x] by (auto split: if_splits)
  then show ?thesis by (simp add: hasAdmin_deleteMembership_same)
qed (use assms in auto)

lemma applyModifier_invariant:
  assumes "applyModifier n m d = Inr d'" and "adminInvariant d"
    and "m = Destroy \<or> hasAdmin d n"
  shows "adminInvariant d'"
proof (cases m)
  case (GrantMember x)
  with assms have d': "d' = setMembership (ensureUser d x) n x ''MEMBER''" and "hasAdmin d n"
    by (auto split: if_splits)
  with assms(1) GrantMember have "hasAdmin d' n"
    using applyModifier_keeps_admin [of n m d d'] by simp
  then show ?thesis
    unfolding d' using assms(2) by (intro adminInvariant_setMembership) simp_all
next
  case (GrantAdmin x)
  with assms have d': "d' = setMembership (ensureUser d x) n x ''ADMIN''" by simp
  show ?thesis
    unfolding d' using assms(2)
    by (intro adminInvariant_setMembership) (simp_all add: hasAdmin_setMembership_same)
next
  case (RemoveMember x)
  with assms have "d' = deleteMembership d n x" "\<not> isAdmin d n x \<or> otherAdmin d n x"
    by (auto split: if_splits)
  then show ?thesis using assms(2) by (simp add: adminInvariant_deleteMembership)
next
  case Destroy
  with assms have "d' = deleteIdentity d n" by (auto split: if_splits)
  then show ?thesis using assms(2) by (simp add: adminInvariant_deleteIdentity)
qed (use assms in auto)

subsection \<open>The modifiers of one command\<close>

lemma applyModifiers_append:
  "applyModifiers n (as @ bs) d =
     (case applyModifiers n as d of Inl e \<Rightarrow> Inl e | Inr d' \<Rightarrow> applyModifiers n bs d')"
  by (induction as arbitrary: d) (auto split: sum.splits)

lemma applyModifiers_before_destroy:
  assumes "applyModifiers n ms d = Inr d'" and "Destroy \<notin> set ms"
    and "adminInvariant d" and "hasAdmin d n"
  shows "adminInvariant d' \<and> hasAdmin d' n"
  using assms
proof (induction ms arbitrary: d)
  case Nil
  then show ?case by simp
next
  case (Cons m ms)
  from Cons.prems(1) obtain d1 where s: "applyModifier n m d = Inr d1"
    and r: "applyModifiers n ms d1 = Inr d'"
    by (auto split: sum.splits)
  from Cons.prems(2) have nd: "m \<noteq> Destroy" "Destroy \<notin> set ms" by auto
  have "adminInvariant d1"
    using applyModifier_invariant [OF s Cons.prems(3)] Cons.prems(4) by simp
  moreover have "hasAdmin d1 n"
    using applyModifier_keeps_admin [OF s nd(1) Cons.prems(4)] .
  ultimately show ?case using Cons.IH [OF r nd(2)] by simp
qed

lemma modifiersOf_split:
  "modifiersOf i = beforeDestroy i @ (if in_destroy i then [Destroy] else [])"
  by (simp add: modifiersOf_def beforeDestroy_def)

lemma no_destroy_beforeDestroy: "Destroy \<notin> set (beforeDestroy i)"
  by (auto simp add: beforeDestroy_def optList_def split: option.splits)

lemma applyModifiers_modifiersOf_invariant:
  assumes "applyModifiers n (modifiersOf i) d = Inr d'"
    and "adminInvariant d" and "hasAdmin d n"
  shows "adminInvariant d'"
proof -
  from assms(1) obtain d1 where a: "applyModifiers n (beforeDestroy i) d = Inr d1"
    and b: "applyModifiers n (if in_destroy i then [Destroy] else []) d1 = Inr d'"
    unfolding modifiersOf_split applyModifiers_append by (auto split: sum.splits)
  from applyModifiers_before_destroy [OF a no_destroy_beforeDestroy assms(2,3)]
  have inv1: "adminInvariant d1" and "hasAdmin d1 n" by simp_all
  show ?thesis
  proof (cases "in_destroy i")
    case True
    with b have "applyModifier n Destroy d1 = Inr d'" by (auto split: sum.splits)
    then show ?thesis using inv1 applyModifier_invariant by blast
  next
    case False
    with b inv1 show ?thesis by simp
  qed
qed

subsection \<open>The handlers\<close>

lemma modifyIdentity_spec_invariant:
  assumes "adminInvariant d"
    and "status r = ADMIN \<longrightarrow> hasAdmin d (identityName r)"
  shows "adminInvariant (snd (modifyIdentity_spec r i d))"
proof (cases "status r")
  case MEMBER
  then show ?thesis using assms(1) by (simp add: modifyIdentity_spec_def)
next
  case ADMIN
  show ?thesis
  proof (cases "applyModifiers (identityName r) (modifiersOf i) d")
    case (Inl e)
    then show ?thesis using ADMIN assms(1) by (simp add: modifyIdentity_spec_def)
  next
    case (Inr d')
    then have "adminInvariant d'"
      using applyModifiers_modifiersOf_invariant assms ADMIN by blast
    then show ?thesis using ADMIN Inr assms(1) by (simp add: modifyIdentity_spec_def)
  qed
qed

lemma modifyIdentity_spec_rejected:
  "fst (modifyIdentity_spec r i d) = Rejected e \<Longrightarrow> snd (modifyIdentity_spec r i d) = d"
  by (auto simp add: modifyIdentity_spec_def split: role.splits if_splits sum.splits)

lemma createIdentity_spec_rejected:
  "fst (createIdentity_spec n sndr d) = Rejected e \<Longrightarrow> snd (createIdentity_spec n sndr d) = d"
  by (auto simp add: createIdentity_spec_def Let_def split: if_splits)

lemma apply_engine_rejected:
  "fst (apply_engine st i sndr d) = Rejected e \<Longrightarrow> snd (apply_engine st i sndr d) = d"
  by (cases st)
     (simp_all add: apply_engine_def modifyIdentity_spec_rejected createIdentity_spec_rejected
        alreadyTaken_spec_def)


subsection \<open>Commands\<close>

lemma existing_admin_isAdmin:
  assumes "fst (checkIdentityStatus (Str n) sndr w) = Existing r" and "status r = ADMIN"
  shows "identityName r = n \<and> isAdmin (store w) n sndr"
proof -
  from existing_result_row [OF assms(1)] obtain ui where
    ui: "ui \<in> set (user_identity (store w))" "ui_identity_name ui = n"
      "ui_user_pubkey ui = sndr" "ui_membership_type ui = membershipType r"
      "ui_identity_name ui = identityName r"
    and st: "status r = (if membershipType r = ''ADMIN'' then ADMIN else MEMBER)"
    by auto
  from st assms(2) have "membershipType r = ''ADMIN''" by (auto split: if_splits)
  with ui show ?thesis unfolding isAdmin_iff by auto
qed

lemma resolveAndApply_eq:
  "resolveAndApply i sndr w =
     (fst (apply_engine (fst (checkIdentityStatus (Str (in_name i)) sndr w)) i sndr (store w)),
      w\<lparr>reads := reads w + 1,
        store := snd (apply_engine (fst (checkIdentityStatus (Str (in_name i)) sndr w)) i sndr
                       (store w))\<rparr>)"
proof -
  obtain st w' where c: "checkIdentityStatus (Str (in_name i)) sndr w = (st, w')"
    by (cases "checkIdentityStatus (Str (in_name i)) sndr w")
  have "snd (checkIdentityStatus (Str (in_name i)) sndr w) = w\<lparr>reads := reads w + 1\<rparr>"
    by (simp add: checkIdentityStatus_def stmt_get_def split: list.splits)
  with c have w': "w' = w\<lparr>reads := reads w + 1\<rparr>" by simp
  show ?thesis
    by (simp add: resolveAndApply_def c w' split: prod.splits)
qed

lemma apply_engine_invariant:
  assumes "adminInvariant (store w)"
  shows "adminInvariant
           (snd (apply_engine (fst (checkIdentityStatus (Str (in_name i)) sndr w)) i sndr (store w)))"
proof (cases "fst (checkIdentityStatus (Str (in_name i)) sndr w)")
  case (Existing r)
  have "status r = ADMIN \<longrightarrow> hasAdmin (store w) (identityName r)"
    using existing_admin_isAdmin [OF Existing] isAdmin_hasAdmin by metis
  then show ?thesis
    using assms Existing by (simp add: apply_engine_def modifyIdentity_spec_invariant)
next
  case AVAILABLE
  then show ?thesis using assms by (simp add: apply_engine_def adminInvariant_createIdentity)
next
  case TAKEN
  then show ?thesis using assms by (simp add: apply_engine_def alreadyTaken_spec_def)
qed

lemma resolveAndApply_invariant:
  "adminInvariant (store w) \<Longrightarrow> adminInvariant (store (snd (resolveAndApply i sndr w)))"
  by (simp add: resolveAndApply_eq apply_engine_invariant)

lemma reachable_adminInvariant: "reachable w \<Longrightarrow> adminInvariant (store w)"
proof (induction rule: reachable.induct)
  case initial
  show ?case by (simp add: adminInvariant_def emptyDb_def)
next
  case (command w i sndr)
  from command.IH show ?case by (rule resolveAndApply_invariant)
qed

lemma last_admin_removal_rejected:
  assumes "fst (checkIdentityStatus (Str (in_name i)) sndr w) = Existing r"
    and "status r = ADMIN" and "modifiersOf i = [RemoveMember x]"
    and "\<not> hasAdmin (deleteMembership (store w) (in_name i) x) (in_name i)"
  shows "resolveAndApply i sndr w = (Rejected InvariantViolation, w\<lparr>reads := reads w + 1\<rparr>)"
proof -
  from existing_admin_isAdmin [OF assms(1,2)]
  have n: "identityName r = in_name i" and a: "isAdmin (store w) (in_name i) sndr" by simp_all
  from assms(4) have o: "\<not> otherAdmin (store w) (in_name i) x"
    by (simp add: hasAdmin_deleteMembership_same)
  with a have "isAdmin (store w) (in_name i) x"
    using hasAdmin_cases [of "store w" "in_name i" x] isAdmin_hasAdmin by blast
  with o show ?thesis
    by (simp add: resolveAndApply_eq assms(1,2,3) apply_engine_def modifyIdentity_spec_def n)
qed

lemma last_admin_demotion_rejected:
  assumes "fst (checkIdentityStatus (Str (in_name i)) sndr w) = Existing r"
    and "status r = ADMIN" and "modifiersOf i = [GrantMember x]"
    and "\<not> hasAdmin (setMembership (ensureUser (store w) x) (in_name i) x ''MEMBER'') (in_name i)"
  shows "resolveAndApply i sndr w = (Rejected InvariantViolation, w\<lparr>reads := reads w + 1\<rparr>)"
proof -
  from existing_admin_isAdmin [OF assms(1,2)]
  have n: "identityName r = in_name i" and a: "isAdmin (store w) (in_name i) sndr" by simp_all
  from assms(4) have o: "\<not> otherAdmin (store w) (in_name i) x"
    by (simp add: hasAdmin_setMembership_same)
  with a have "isAdmin (store w) (in_name i) x"
    using hasAdmin_cases [of "store w" "in_name i" x] isAdmin_hasAdmin by blast
  with o show ?thesis
    by (simp add: resolveAndApply_eq assms(1,2,3) apply_engine_def modifyIdentity_spec_def n)
qed

lemma reachable_afterGrant: "reachable afterGrant"
  unfolding afterGrant_def afterClaim_def
  by (intro reachable.command reachable.initial)

lemma afterGrant_eq: "afterGrant = twoMembers\<lparr>reads := 2\<rparr>"
  by code_simp

text \<open>
  Claim C3. In every registry state that commands can reach, and after every further
  command, every identity name that has a membership row has one of type ADMIN. A
  rejected command leaves the tables as they were; and when an ADMIN's command is a
  removal, or a demotion to MEMBER, that would leave the identity without any ADMIN row,
  the engine rejects it with \<^verbatim>\<open>InvariantViolation\<close> and the tables are unchanged.
\<close>

theorem admin_invariant_maintained:
  assumes "reachable w"
  shows "adminInvariant (store w) \<and>
         adminInvariant (store (snd (resolveAndApply i sndr w))) \<and>
         (\<forall>e. fst (resolveAndApply i sndr w) = Rejected e \<longrightarrow>
               store (snd (resolveAndApply i sndr w)) = store w) \<and>
         (\<forall>r x. fst (checkIdentityStatus (Str (in_name i)) sndr w) = Existing r \<and>
                 status r = ADMIN \<and> modifiersOf i = [RemoveMember x] \<and>
                 \<not> hasAdmin (deleteMembership (store w) (in_name i) x) (in_name i) \<longrightarrow>
                 resolveAndApply i sndr w =
                   (Rejected InvariantViolation, w\<lparr>reads := reads w + 1\<rparr>)) \<and>
         (\<forall>r x. fst (checkIdentityStatus (Str (in_name i)) sndr w) = Existing r \<and>
                 status r = ADMIN \<and> modifiersOf i = [GrantMember x] \<and>
                 \<not> hasAdmin (setMembership (ensureUser (store w) x) (in_name i) x ''MEMBER'')
                      (in_name i) \<longrightarrow>
                 resolveAndApply i sndr w =
                   (Rejected InvariantViolation, w\<lparr>reads := reads w + 1\<rparr>))"
proof -
  have inv: "adminInvariant (store w)" using assms by (rule reachable_adminInvariant)
  have step: "adminInvariant (store (snd (resolveAndApply i sndr w)))"
    using inv by (rule resolveAndApply_invariant)
  have rej: "\<forall>e. fst (resolveAndApply i sndr w) = Rejected e \<longrightarrow>
               store (snd (resolveAndApply i sndr w)) = store w"
    by (simp add: resolveAndApply_eq apply_engine_rejected)
  show ?thesis
    using inv step rej last_admin_removal_rejected last_admin_demotion_rejected by blast
qed


text \<open>Witness for C3: \<^verbatim>\<open>alice\<close> with the single ADMIN \<^verbatim>\<open>S1\<close> and the MEMBER \<^verbatim>\<open>S2\<close>; the removal
  of \<^verbatim>\<open>S1\<close> would leave a membership and no ADMIN, and so would its demotion.\<close>

theorem admin_invariant_maintained_witness:
  "reachable afterGrant \<and> adminInvariant (store afterGrant) \<and>
   fst (checkIdentityStatus (Str ''alice'') ''S1'' afterGrant) = Existing aliceAdminS1 \<and>
   status aliceAdminS1 = ADMIN \<and>
   modifiersOf (claimAlice\<lparr>in_remove := Some ''S1''\<rparr>) = [RemoveMember ''S1''] \<and>
   hasMembers (deleteMembership (store afterGrant) ''alice'' ''S1'') ''alice'' \<and>
   \<not> hasAdmin (deleteMembership (store afterGrant) ''alice'' ''S1'') ''alice'' \<and>
   resolveAndApply (claimAlice\<lparr>in_remove := Some ''S1''\<rparr>) ''S1'' afterGrant =
     (Rejected InvariantViolation, afterGrant\<lparr>reads := reads afterGrant + 1\<rparr>) \<and>
   store (snd (resolveAndApply (claimAlice\<lparr>in_remove := Some ''S1''\<rparr>) ''S1'' afterGrant)) =
     store afterGrant \<and>
   modifiersOf (claimAlice\<lparr>in_member := Some ''S1''\<rparr>) = [GrantMember ''S1''] \<and>
   \<not> hasAdmin (setMembership (ensureUser (store afterGrant) ''S1'') ''alice'' ''S1'' ''MEMBER'')
        ''alice'' \<and>
   resolveAndApply (claimAlice\<lparr>in_member := Some ''S1''\<rparr>) ''S1'' afterGrant =
     (Rejected InvariantViolation, afterGrant\<lparr>reads := reads afterGrant + 1\<rparr>)"
proof -
  have st: "fst (checkIdentityStatus (Str ''alice'') ''S1'' afterGrant) = Existing aliceAdminS1"
    by code_simp
  have ad: "status aliceAdminS1 = ADMIN" by (simp add: aliceAdminS1_def)
  have n: "in_name (claimAlice\<lparr>in_remove := Some ''S1''\<rparr>) = ''alice''"
    "in_name (claimAlice\<lparr>in_member := Some ''S1''\<rparr>) = ''alice''"
    by (simp_all add: claimAlice_def)
  have mr: "modifiersOf (claimAlice\<lparr>in_remove := Some ''S1''\<rparr>) = [RemoveMember ''S1'']"
    by (simp add: modifiersOf_def claimAlice_def optList_def)
  have mm: "modifiersOf (claimAlice\<lparr>in_member := Some ''S1''\<rparr>) = [GrantMember ''S1'']"
    by (simp add: modifiersOf_def claimAlice_def optList_def)
  have hm: "hasMembers (deleteMembership (store afterGrant) ''alice'' ''S1'') ''alice''"
    by code_simp
  have na: "\<not> hasAdmin (deleteMembership (store afterGrant) ''alice'' ''S1'') ''alice''"
    by code_simp
  have nd: "\<not> hasAdmin (setMembership (ensureUser (store afterGrant) ''S1'') ''alice'' ''S1''
        ''MEMBER'') ''alice''"
    by code_simp
  note r = admin_invariant_maintained [OF reachable_afterGrant, of "claimAlice\<lparr>in_remove := Some ''S1''\<rparr>" "''S1''"]
  note m = admin_invariant_maintained [OF reachable_afterGrant, of "claimAlice\<lparr>in_member := Some ''S1''\<rparr>" "''S1''"]
  have rr: "resolveAndApply (claimAlice\<lparr>in_remove := Some ''S1''\<rparr>) ''S1'' afterGrant =
     (Rejected InvariantViolation, afterGrant\<lparr>reads := reads afterGrant + 1\<rparr>)"
    using r st ad mr na unfolding n by blast
  have rm: "resolveAndApply (claimAlice\<lparr>in_member := Some ''S1''\<rparr>) ''S1'' afterGrant =
     (Rejected InvariantViolation, afterGrant\<lparr>reads := reads afterGrant + 1\<rparr>)"
    using m st ad mm nd unfolding n by blast
  have inv: "adminInvariant (store afterGrant)" using r by blast
  have un: "store (snd (resolveAndApply (claimAlice\<lparr>in_remove := Some ''S1''\<rparr>) ''S1'' afterGrant)) =
     store afterGrant"
    using r rr by simp
  show ?thesis
    using reachable_afterGrant inv st ad mr hm na rr un mm nd rm by blast
qed

text \<open>The second half of the scenario of section 8: once \<^verbatim>\<open>S2\<close> is an ADMIN as well, the
  same removal of \<^verbatim>\<open>S1\<close> succeeds.\<close>

lemma removal_succeeds_with_second_admin:
  "fst (resolveAndApply (claimAlice\<lparr>in_remove := Some ''S1''\<rparr>) ''S1''
          (snd (resolveAndApply (claimAlice\<lparr>in_admin := Some ''S2''\<rparr>) ''S1'' afterGrant)))
     = Success"
  by code_simp

end
